theory Spec2Isabelle
  imports Main "HOL-Library.Word"
begin

section \<open>JavaScript values\<close>

text \<open>
  A JavaScript string is a sequence of 16-bit code units. \<open>lit\<close> turns an ASCII
  literal of the source into its code units.
\<close>

type_synonym jsstring = "16 word list"

definition lit :: "string \<Rightarrow> jsstring" where
  "lit s = map (\<lambda>c. of_char c) s"

text \<open>
  The values the module handles: the primitives that can be thrown or stored in a
  \<open>cause\<close> property, and references to objects of the store. Numbers are the
  integer-valued ones (no NaN, no fractions); bigints and symbols are left out.
\<close>

type_synonym addr = nat

datatype jsval =
    Undefined
  | Null
  | Boolean bool
  | Number int
  | String jsstring
  | Ref addr

text \<open>ToBoolean, as \<open>if (x)\<close> and \<open>!x\<close> apply it.\<close>

fun truthy :: "jsval \<Rightarrow> bool" where
  "truthy Undefined = False"
| "truthy Null = False"
| "truthy (Boolean b) = b"
| "truthy (Number n) = (n \<noteq> 0)"
| "truthy (String s) = (s \<noteq> [])"
| "truthy (Ref a) = True"

text \<open>
  An expression or a function body completes normally with a value or throws a value.
  A promise is modelled by its settlement. A promise that never settles leaves the
  awaiting function suspended for ever; that case is outside the model.
\<close>

datatype 'a completion = Normal 'a | Throw jsval

datatype 'a settled = Fulfilled 'a | Rejected jsval

text \<open>\<open>await p\<close>: the value of a fulfilled promise, the reason of a rejected one thrown.\<close>

fun await :: "'a settled \<Rightarrow> 'a completion" where
  "await (Fulfilled v) = Normal v"
| "await (Rejected e) = Throw e"

text \<open>\<open>try { body } catch (error) { handler }\<close>.\<close>

fun try_catch :: "'a completion \<Rightarrow> (jsval \<Rightarrow> 'a completion) \<Rightarrow> 'a completion" where
  "try_catch (Normal v) handler = Normal v"
| "try_catch (Throw e) handler = handler e"

text \<open>An \<open>async\<close> function returns a promise settled by the completion of its body.\<close>

fun async :: "'a completion \<Rightarrow> 'a settled" where
  "async (Normal v) = Fulfilled v"
| "async (Throw e) = Rejected e"

section \<open>The Result type, tryCatch and trySync\<close>

text \<open>
  \<open>Success<T> = { data: T, error: undefined }\<close> and
  \<open>Failure<E> = { data: undefined, error: E }\<close> are two shapes of one object with the
  fields \<open>data\<close> and \<open>error\<close>.
\<close>

record result =
  data :: jsval
  error :: jsval

definition Success :: "jsval \<Rightarrow> result" where
  "Success v = \<lparr>data = v, error = Undefined\<rparr>"

definition Failure :: "jsval \<Rightarrow> result" where
  "Failure e = \<lparr>data = Undefined, error = e\<rparr>"

text \<open>
  The two shapes are told apart by the \<open>error\<close> field (the callers of this
  repository test \<open>result.error\<close>): a result is the Success variant when its
  \<open>error\<close> is \<open>undefined\<close>, and the Failure variant when its \<open>error\<close> is present
  and its \<open>data\<close> is \<open>undefined\<close>.
\<close>

definition is_Success :: "result \<Rightarrow> bool" where
  "is_Success r = (error r = Undefined)"

definition is_Failure :: "result \<Rightarrow> bool" where
  "is_Failure r = (data r = Undefined \<and> error r \<noteq> Undefined)"

text \<open>
  \<^verbatim>\<open>
  export async function tryCatch(promise) {
    try {
      const data = await promise
      return { data, error: undefined }
    } catch (error) {
      const finalError = error as E
      return { data: undefined, error: finalError }
    }
  }
  \<close>
  The cast \<open>error as E\<close> is erased at run time.
\<close>

definition tryCatch :: "jsval settled \<Rightarrow> result settled" where
  "tryCatch promise =
     async (try_catch
       (case await promise of
          Normal d \<Rightarrow> Normal \<lparr>data = d, error = Undefined\<rparr>
        | Throw e \<Rightarrow> Throw e)
       (\<lambda>err. let finalError = err in Normal \<lparr>data = Undefined, error = finalError\<rparr>))"

text \<open>
  \<^verbatim>\<open>
  export function trySync(fn) {
    try {
      const data = fn()
      return { data, error: undefined }
    } catch (error) {
      const finalError = error as E
      return { data: undefined, error: finalError }
    }
  }
  \<close>
  The callable may read and change any state of the program: it is a function from the
  state before the call to its completion and the state after.
\<close>

definition trySync :: "('s \<Rightarrow> jsval completion \<times> 's) \<Rightarrow> 's \<Rightarrow> result completion \<times> 's" where
  "trySync fn s =
     (let (c, s') = fn s in
      (try_catch
         (case c of
            Normal d \<Rightarrow> Normal \<lparr>data = d, error = Undefined\<rparr>
          | Throw e \<Rightarrow> Throw e)
         (\<lambda>err. let finalError = err in Normal \<lparr>data = Undefined, error = finalError\<rparr>),
       s'))"

section \<open>The object store and the WrappedError class\<close>

text \<open>
  Objects live in a store and are named by their address; \<open>new\<close> appends an object,
  so the address of a new object is the length of the store before. An object has the
  class whose prototype it was made with and the properties the module reads:
  \<open>name\<close>, \<open>message\<close> and \<open>cause\<close> (\<open>None\<close> when the object has no property
  \<open>cause\<close>). Accessor properties and proxies are not modelled. \<open>ErrorClass\<close>
  stands for \<open>Error\<close> and its subclasses other than \<open>WrappedError\<close>,
  \<open>ObjectClass\<close> for every object that is not an instance of \<open>Error\<close>.
\<close>

datatype jsclass = WrappedErrorClass | ErrorClass | ObjectClass

record jsobj =
  cls :: jsclass
  name :: jsstring
  message :: jsstring
  cause :: "jsval option"

type_synonym store = "jsobj list"

definition lookup :: "store \<Rightarrow> addr \<Rightarrow> jsobj option" where
  "lookup h a = (if a < length h then Some (h ! a) else None)"

text \<open>The errors the runtime raises by itself.\<close>

datatype jserror = TypeError

text \<open>
  \<^verbatim>\<open>
  constructor(message: string, cause: E) {
    super(message)
    this.name = "WrappedError"
    this.cause = cause
    if (Error.captureStackTrace) { Error.captureStackTrace(this, WrappedError) }
  }
  \<close>
  The stack trace is not modelled.
\<close>

definition new_WrappedError :: "store \<Rightarrow> jsstring \<Rightarrow> jsval \<Rightarrow> jsval \<times> store" where
  "new_WrappedError h msg c =
     (Ref (length h),
      h @ [\<lparr>cls = WrappedErrorClass, name = lit ''WrappedError'', message = msg,
            cause = Some c\<rparr>])"

text \<open>\<open>function wrap(cause, message) { return new WrappedError(message, cause) }\<close>\<close>

definition wrap :: "store \<Rightarrow> jsval \<Rightarrow> jsstring \<Rightarrow> jsval \<times> store" where
  "wrap h c msg = new_WrappedError h msg c"

text \<open>
  \<open>unwrap() { return this.cause }\<close>, a method of \<open>WrappedError.prototype\<close>: calling
  it on any other value is a TypeError (the value has no such method).
\<close>

definition unwrap :: "store \<Rightarrow> jsval \<Rightarrow> jserror + jsval" where
  "unwrap h this =
     (case this of
        Ref a \<Rightarrow>
          (case lookup h a of
             Some ob \<Rightarrow>
               if cls ob = WrappedErrorClass
               then Inr (case cause ob of Some c \<Rightarrow> c | None \<Rightarrow> Undefined)
               else Inl TypeError
           | None \<Rightarrow> Inl TypeError)
      | _ \<Rightarrow> Inl TypeError)"

text \<open>\<open>v instanceof Error\<close>: false for every primitive.\<close>

definition instanceof_Error :: "store \<Rightarrow> jsval \<Rightarrow> bool" where
  "instanceof_Error h v =
     (case v of
        Ref a \<Rightarrow> (case lookup h a of Some ob \<Rightarrow> cls ob \<noteq> ObjectClass | None \<Rightarrow> False)
      | _ \<Rightarrow> False)"

text \<open>\<open>"cause" in v\<close>: a TypeError when \<open>v\<close> is not an object.\<close>

definition cause_in :: "store \<Rightarrow> jsval \<Rightarrow> jserror + bool" where
  "cause_in h v =
     (case v of
        Ref a \<Rightarrow> (case lookup h a of Some ob \<Rightarrow> Inr (cause ob \<noteq> None) | None \<Rightarrow> Inl TypeError)
      | _ \<Rightarrow> Inl TypeError)"

text \<open>
  \<open>v.cause\<close>: a TypeError on \<open>undefined\<close> and \<open>null\<close>, \<open>undefined\<close> on the other
  primitives and on an object without the property.
\<close>

definition get_cause :: "store \<Rightarrow> jsval \<Rightarrow> jserror + jsval" where
  "get_cause h v =
     (case v of
        Undefined \<Rightarrow> Inl TypeError
      | Null \<Rightarrow> Inl TypeError
      | Ref a \<Rightarrow>
          (case lookup h a of
             Some ob \<Rightarrow> Inr (case cause ob of Some c \<Rightarrow> c | None \<Rightarrow> Undefined)
           | None \<Rightarrow> Inl TypeError)
      | _ \<Rightarrow> Inr Undefined)"

text \<open>
  The loop condition
  \<open>"cause" in result && result.cause != null && result.cause instanceof Error\<close>,
  evaluated left to right with short circuit.
\<close>

definition walk_cond :: "store \<Rightarrow> jsval \<Rightarrow> jserror + bool" where
  "walk_cond h result =
     (case cause_in h result of
        Inl e \<Rightarrow> Inl e
      | Inr b \<Rightarrow>
          if \<not> b then Inr False
          else (case get_cause h result of
                  Inl e \<Rightarrow> Inl e
                | Inr c \<Rightarrow>
                    if \<not> (c \<noteq> Undefined \<and> c \<noteq> Null) then Inr False
                    else Inr (instanceof_Error h c)))"

text \<open>
  \<^verbatim>\<open>
  static cause(error: Error): Error {
    let result = error
    while ("cause" in result && result.cause != null && result.cause instanceof Error) {
      result = result.cause
    }
    return result
  }
  \<close>
  The loop may run for ever on a store with a cycle of causes, so it is a partial
  function: \<open>None\<close> means the loop does not end. The last argument counts the
  iterations made so far; it is not in the source.
\<close>

partial_function (option) cause_loop ::
  "store \<Rightarrow> jsval \<Rightarrow> nat \<Rightarrow> ((jserror + jsval) \<times> nat) option" where
  "cause_loop h result n =
     (case walk_cond h result of
        Inl e \<Rightarrow> Some (Inl e, n)
      | Inr b \<Rightarrow>
          if b then
            (case get_cause h result of
               Inl e \<Rightarrow> Some (Inl e, n)
             | Inr c \<Rightarrow> cause_loop h c (Suc n))
          else Some (Inr result, n))"

definition WrappedError_cause :: "store \<Rightarrow> jsval \<Rightarrow> (jserror + jsval) option" where
  "WrappedError_cause h err = map_option fst (cause_loop h err 0)"



text \<open>Wrapping a value several times, the first message of the list innermost.\<close>

fun wrap_all :: "store \<Rightarrow> jsval \<Rightarrow> jsstring list \<Rightarrow> jsval \<times> store" where
  "wrap_all h c [] = (c, h)"
| "wrap_all h c (msg # msgs) = (let (w, h') = wrap h c msg in wrap_all h' w msgs)"

section \<open>The drop script\<close>

text \<open>
  \<open>String.prototype.trim\<close> removes the white space and line terminator code units of
  ECMAScript from both ends of a string.
\<close>

definition is_whitespace :: "16 word \<Rightarrow> bool" where
  "is_whitespace u =
     (u \<in> {0x0009, 0x000A, 0x000B, 0x000C, 0x000D, 0x0020, 0x00A0, 0x1680,
            0x2000, 0x2001, 0x2002, 0x2003, 0x2004, 0x2005, 0x2006, 0x2007,
            0x2008, 0x2009, 0x200A, 0x2028, 0x2029, 0x202F, 0x205F, 0x3000, 0xFEFF})"

definition trim :: "jsstring \<Rightarrow> jsstring" where
  "trim s = rev (dropWhile is_whitespace (rev (dropWhile is_whitespace s)))"

text \<open>
  What the script does to the outside, in order: the console calls with their
  arguments, and each statement \<open>DROP SCHEMA IF EXISTS <name> CASCADE\<close> handed to
  \<open>db.execute\<close>, with the settlement of the promise it returned.
\<close>

datatype event =
    ConsoleLog "jsval list"
  | ConsoleWarn "jsval list"
  | ConsoleError "jsval list"
  | DbExecute jsstring "jsval settled"

text \<open>
  The script ends by \<open>process.exit(code)\<close>, or by an exception that leaves
  \<open>dropSchemas\<close>.
\<close>

datatype status = Exit nat | Uncaught jsval

text \<open>
  \<^verbatim>\<open>
  for (const schemaName of schemaNames) {
    if (!schemaName.trim()) {
      console.warn("Skipping empty schema name.")
      continue
    }
    const result = await Errors.try(
      db.execute(sql`DROP SCHEMA IF EXISTS ${sql.identifier(schemaName)} CASCADE`))
    if (result.error) {
      console.error(`Error dropping schema ${schemaName}:`, result.error)
      success = false
    } else {
      console.log(`Successfully dropped schema: ${schemaName}`)
    }
  }
  \<close>
  The database is outside the repository: \<open>execute\<close> takes the schema name of the
  statement and the state of the database and gives the settlement of the promise and
  the next state.
\<close>

fun drop_loop ::
  "(jsstring \<Rightarrow> 'db \<Rightarrow> jsval settled \<times> 'db) \<Rightarrow> jsstring list \<Rightarrow> bool \<Rightarrow> event list \<Rightarrow> 'db
   \<Rightarrow> bool completion \<times> event list \<times> 'db" where
  "drop_loop execute [] success out d = (Normal success, out, d)"
| "drop_loop execute (schemaName # rest) success out d =
     (if \<not> truthy (String (trim schemaName)) then
        drop_loop execute rest success
          (out @ [ConsoleWarn [String (lit ''Skipping empty schema name.'')]]) d
      else
        (let (p, d') = execute schemaName d;
             out' = out @ [DbExecute schemaName p]
         in case await (tryCatch p) of
              Throw e \<Rightarrow> (Throw e, out', d')
            | Normal result \<Rightarrow>
                if truthy (error result) then
                  drop_loop execute rest False
                    (out' @ [ConsoleError
                               [String (lit ''Error dropping schema '' @ schemaName @ lit '':''),
                                error result]]) d'
                else
                  drop_loop execute rest success
                    (out' @ [ConsoleLog
                               [String (lit ''Successfully dropped schema: '' @ schemaName)]]) d'))"

text \<open>
  \<^verbatim>\<open>
  async function dropSchemas(schemaNames: string[]) {
    if (schemaNames.length === 0) {
      console.log("No schemas specified to drop.")
      process.exit(0)
    }
    let success = true
    for (...) { ... }
    if (success) {
      console.log("All specified schemas dropped successfully.")
      process.exit(0)
    } else {
      console.error("Some schemas failed to drop.")
      process.exit(1)
    }
  }
  \<close>
  \<open>process.exit\<close> does not return, so nothing runs after it.
\<close>

definition dropSchemas ::
  "(jsstring \<Rightarrow> 'db \<Rightarrow> jsval settled \<times> 'db) \<Rightarrow> jsstring list \<Rightarrow> 'db \<Rightarrow> status \<times> event list \<times> 'db" where
  "dropSchemas execute schemaNames d =
     (if length schemaNames = 0 then
        (Exit 0, [ConsoleLog [String (lit ''No schemas specified to drop.'')]], d)
      else
        (case drop_loop execute schemaNames True [] d of
           (Throw e, out, d') \<Rightarrow> (Uncaught e, out, d')
         | (Normal success, out, d') \<Rightarrow>
             if success then
               (Exit 0,
                out @ [ConsoleLog [String (lit ''All specified schemas dropped successfully.'')]],
                d')
             else
               (Exit 1, out @ [ConsoleError [String (lit ''Some schemas failed to drop.'')]], d')))"

section \<open>Notions used to state the properties\<close>

text \<open>
  A value is terminal when it is an object that has no \<open>cause\<close> property, or whose
  \<open>cause\<close> is \<open>undefined\<close> or \<open>null\<close>, or whose \<open>cause\<close> is not an instance of
  \<open>Error\<close>. There is a link from an object to its \<open>cause\<close> when that is an instance
  of \<open>Error\<close>. A chain from \<open>v\<close> is the list of the values that the links lead
  through, the last of them terminal.
\<close>

definition terminal :: "store \<Rightarrow> jsval \<Rightarrow> bool" where
  "terminal h v =
     (case v of
        Ref a \<Rightarrow>
          (case lookup h a of
             Some ob \<Rightarrow>
               (case cause ob of
                  None \<Rightarrow> True
                | Some c \<Rightarrow> c = Undefined \<or> c = Null \<or> \<not> instanceof_Error h c)
           | None \<Rightarrow> False)
      | _ \<Rightarrow> False)"

definition link :: "store \<Rightarrow> jsval \<Rightarrow> jsval \<Rightarrow> bool" where
  "link h v c =
     (case v of
        Ref a \<Rightarrow>
          (case lookup h a of
             Some ob \<Rightarrow> cause ob = Some c \<and> instanceof_Error h c
           | None \<Rightarrow> False)
      | _ \<Rightarrow> False)"

fun chain :: "store \<Rightarrow> jsval \<Rightarrow> jsval list \<Rightarrow> bool" where
  "chain h v [] = terminal h v"
| "chain h v (c # cs) = (link h v c \<and> chain h c cs)"

text \<open>
  A store is closed when every reference in a \<open>cause\<close> property is the address of one
  of its objects, as in every store of a running program. It is ordered when every
  such reference is to an older object, as in every store built by constructors alone
  (a cause exists before the error that names it).
\<close>

definition closed :: "store \<Rightarrow> bool" where
  "closed h = list_all (\<lambda>ob. case cause ob of Some (Ref b) \<Rightarrow> b < length h | _ \<Rightarrow> True) h"

definition ordered :: "store \<Rightarrow> bool" where
  "ordered h =
     list_all (\<lambda>(a, ob). case cause ob of Some (Ref b) \<Rightarrow> b < a | _ \<Rightarrow> True) (enumerate 0 h)"

definition addr_rank :: "jsval \<Rightarrow> nat" where
  "addr_rank v = (case v of Ref a \<Rightarrow> a | _ \<Rightarrow> 0)"

text \<open>The statements handed to the database, read off the events.\<close>

fun drops :: "event list \<Rightarrow> (jsstring \<times> jsval settled) list" where
  "drops [] = []"
| "drops (DbExecute n p # es) = (n, p) # drops es"
| "drops (e # es) = drops es"

text \<open>What one run of the loop over \<open>names\<close> adds to the events.\<close>

definition loop_post :: "jsstring list \<Rightarrow> event list \<Rightarrow> bool" where
  "loop_post names new =
     (map fst (drops new) = filter (\<lambda>n. trim n \<noteq> []) names
      \<and> length (filter (\<lambda>ev. ev = ConsoleWarn [String (lit ''Skipping empty schema name.'')]) new)
          = length (filter (\<lambda>n. trim n = []) names)
      \<and> (\<forall>n v. (n, Fulfilled v) \<in> set (drops new) \<longrightarrow>
            ConsoleLog [String (lit ''Successfully dropped schema: '' @ n)] \<in> set new)
      \<and> (\<forall>n e. (n, Rejected e) \<in> set (drops new) \<longrightarrow> truthy e \<longrightarrow>
            ConsoleError [String (lit ''Error dropping schema '' @ n @ lit '':''), e] \<in> set new))"

text \<open>
  Concrete inputs: a store with one plain error, the store after wrapping that error
  with the message B and the result with the message A, the store after wrapping it
  twice with the message B, a database that fulfils every
  statement, one that rejects every statement with the error object at address 0, a
  callable that throws \<open>undefined\<close> and one that returns \<open>undefined\<close>.
\<close>

definition store0 :: store where
  "store0 = [\<lparr>cls = ErrorClass, name = lit ''Error'', message = lit ''boom'', cause = None\<rparr>]"

definition store2 :: store where
  "store2 =
     store0 @
     [\<lparr>cls = WrappedErrorClass, name = lit ''WrappedError'', message = lit ''B'',
       cause = Some (Ref 0)\<rparr>,
      \<lparr>cls = WrappedErrorClass, name = lit ''WrappedError'', message = lit ''A'',
       cause = Some (Ref 1)\<rparr>]"


definition db_ok :: "jsstring \<Rightarrow> unit \<Rightarrow> jsval settled \<times> unit" where
  "db_ok n d = (Fulfilled Undefined, d)"

definition db_permission_denied :: "jsstring \<Rightarrow> unit \<Rightarrow> jsval settled \<times> unit" where
  "db_permission_denied n d = (Rejected (Ref 0), d)"

definition fn_throw_undefined :: "unit \<Rightarrow> jsval completion \<times> unit" where
  "fn_throw_undefined s = (Throw Undefined, s)"

definition fn_return_undefined :: "unit \<Rightarrow> jsval completion \<times> unit" where
  "fn_return_undefined s = (Normal Undefined, s)"

section \<open>Lemmas about the store\<close>

lemma lookup_append: "a < length h \<Longrightarrow> lookup (h @ xs) a = lookup h a"
  by (simp add: lookup_def nth_append)

lemma lookup_Some_less: "lookup h a = Some ob \<Longrightarrow> a < length h"
  by (simp add: lookup_def split: if_splits)

lemma lookup_new: "lookup (h @ [ob]) (length h) = Some ob"
  by (simp add: lookup_def)

lemma lookup_append_Some: "lookup h a = Some ob \<Longrightarrow> lookup (h @ xs) a = Some ob"
  by (simp add: lookup_def nth_append split: if_splits)

lemma wrap_eq:
  "wrap h c msg =
     (Ref (length h),
      h @ [\<lparr>cls = WrappedErrorClass, name = lit ''WrappedError'', message = msg, cause = Some c\<rparr>])"
  by (simp add: wrap_def new_WrappedError_def)

lemma instanceof_Error_Ref:
  "instanceof_Error h c \<Longrightarrow> \<exists>a ob. c = Ref a \<and> lookup h a = Some ob \<and> cls ob \<noteq> ObjectClass"
  by (auto simp: instanceof_Error_def split: jsval.splits option.splits)

lemma instanceof_Error_append_iff:
  "(\<And>b. c = Ref b \<Longrightarrow> b < length h) \<Longrightarrow> instanceof_Error (h @ xs) c = instanceof_Error h c"
  by (cases c) (simp_all add: instanceof_Error_def lookup_append)

lemma instanceof_Error_append:
  "instanceof_Error h c \<Longrightarrow> instanceof_Error (h @ xs) c"
proof -
  assume "instanceof_Error h c"
  then obtain a ob where c: "c = Ref a" and ob: "lookup h a = Some ob" and k: "cls ob \<noteq> ObjectClass"
    using instanceof_Error_Ref by blast
  from ob have "lookup (h @ xs) a = Some ob" by (rule lookup_append_Some)
  with c k show ?thesis by (simp add: instanceof_Error_def)
qed

lemma closed_cause:
  "closed h \<Longrightarrow> lookup h a = Some ob \<Longrightarrow> cause ob = Some (Ref b) \<Longrightarrow> b < length h"
  by (auto simp: closed_def lookup_def list_all_length split: if_splits)

lemma terminal_Ref:
  "terminal h v \<Longrightarrow> \<exists>a ob. v = Ref a \<and> lookup h a = Some ob"
  by (auto simp: terminal_def split: jsval.splits option.splits)

lemma terminal_append:
  assumes cl: "closed h" and t: "terminal h v"
  shows "terminal (h @ xs) v"
proof -
  from t obtain a ob where v: "v = Ref a" and ob: "lookup h a = Some ob"
    using terminal_Ref by blast
  from ob have ob': "lookup (h @ xs) a = Some ob" by (rule lookup_append_Some)
  show ?thesis
  proof (cases "cause ob")
    case None
    with v ob' show ?thesis by (simp add: terminal_def)
  next
    case (Some c)
    have "\<And>b. c = Ref b \<Longrightarrow> b < length h"
      using cl ob Some closed_cause by blast
    then have "instanceof_Error (h @ xs) c = instanceof_Error h c"
      by (rule instanceof_Error_append_iff)
    with t v ob ob' Some show ?thesis by (simp add: terminal_def)
  qed
qed

lemma link_append: "link h v c \<Longrightarrow> link (h @ xs) v c"
  by (auto simp: link_def instanceof_Error_append lookup_append_Some
      split: jsval.splits option.splits)

lemma link_not_terminal: "link h v c \<Longrightarrow> \<not> terminal h v"
  by (auto simp: link_def terminal_def dest: instanceof_Error_Ref
      split: jsval.splits option.splits)

lemma chain_append: "closed h \<Longrightarrow> chain h v cs \<Longrightarrow> chain (h @ xs) v cs"
  by (induction cs arbitrary: v) (simp_all add: terminal_append link_append)

lemma chain_last_terminal: "chain h v cs \<Longrightarrow> terminal h (last (v # cs))"
  by (induction cs arbitrary: v) simp_all

lemma chain_butlast_not_terminal:
  "chain h v cs \<Longrightarrow> x \<in> set (butlast (v # cs)) \<Longrightarrow> \<not> terminal h x"
  by (induction cs arbitrary: v) (auto simp: link_not_terminal)

lemma closed_wrap:
  assumes "closed h" and "instanceof_Error h c"
  shows "closed (snd (wrap h c msg))"
proof -
  from assms(2) obtain a where "c = Ref a" and "a < length h"
    using instanceof_Error_Ref lookup_Some_less by blast
  with assms(1) show ?thesis
    by (auto simp: closed_def wrap_def new_WrappedError_def list_all_length nth_append
        split: option.splits jsval.splits)
qed

lemma wrap_link:
  "instanceof_Error h c \<Longrightarrow> link (snd (wrap h c msg)) (fst (wrap h c msg)) c"
  by (simp add: wrap_def new_WrappedError_def link_def lookup_new instanceof_Error_append)

lemma wrap_instanceof:
  "instanceof_Error (snd (wrap h c msg)) (fst (wrap h c msg))"
  by (simp add: wrap_def new_WrappedError_def instanceof_Error_def lookup_new)


lemma wrap_all_chain:
  "closed h \<Longrightarrow> instanceof_Error h c \<Longrightarrow> chain h c cs \<Longrightarrow>
   \<exists>cs'. chain (snd (wrap_all h c msgs)) (fst (wrap_all h c msgs)) cs'
     \<and> last (fst (wrap_all h c msgs) # cs') = last (c # cs)
     \<and> length cs' = length msgs + length cs"
proof (induction msgs arbitrary: h c cs)
  case Nil
  then show ?case by auto
next
  case (Cons m msgs)
  let ?w = "fst (wrap h c m)" and ?h = "snd (wrap h c m)"
  have h': "?h = h @ [\<lparr>cls = WrappedErrorClass, name = lit ''WrappedError'', message = m, cause = Some c\<rparr>]"
    by (simp add: wrap_def new_WrappedError_def)
  have 1: "closed ?h" using Cons.prems(1,2) by (rule closed_wrap)
  have 2: "instanceof_Error ?h ?w" by (rule wrap_instanceof)
  have "chain ?h c cs" unfolding h' using Cons.prems(1,3) by (rule chain_append)
  with wrap_link [OF Cons.prems(2)] have 3: "chain ?h ?w (c # cs)" by simp
  have eq: "wrap_all h c (m # msgs) = wrap_all ?h ?w msgs"
    by (simp add: case_prod_unfold Let_def)
  from Cons.IH [OF 1 2 3] obtain cs' where
    a: "chain (snd (wrap_all ?h ?w msgs)) (fst (wrap_all ?h ?w msgs)) cs'" and
    b: "last (fst (wrap_all ?h ?w msgs) # cs') = last (?w # c # cs)" and
    c: "length cs' = length msgs + length (c # cs)" by blast
  have b': "last (?w # c # cs) = last (c # cs)" by simp
  have c': "length msgs + length (c # cs) = length (m # msgs) + length cs" by simp
  show ?case
    unfolding eq using a b c b' c' by metis
qed

lemma ordered_nth:
  "ordered h \<Longrightarrow> a < length h \<Longrightarrow> cause (h ! a) = Some (Ref b) \<Longrightarrow> b < a"
  by (auto simp: ordered_def list_all_length nth_enumerate_eq split: option.splits jsval.splits)

lemma ordered_link: "ordered h \<Longrightarrow> link h x c \<Longrightarrow> addr_rank c < addr_rank x"
  by (auto simp: link_def addr_rank_def lookup_def dest: ordered_nth instanceof_Error_Ref
      split: jsval.splits if_splits)

lemma ordered_wrap:
  assumes "ordered h" and "\<And>b. c = Ref b \<Longrightarrow> b < length h"
  shows "ordered (snd (wrap h c msg))"
  using assms
  by (auto simp: ordered_def wrap_eq enumerate_append_eq split: option.splits jsval.splits)

section \<open>Lemmas about the walk along the causes\<close>

lemma walk_cond_terminal: "terminal h v \<Longrightarrow> walk_cond h v = Inr False"
  by (auto simp: terminal_def walk_cond_def cause_in_def get_cause_def
      split: jsval.splits option.splits)

lemma walk_cond_link: "link h v c \<Longrightarrow> walk_cond h v = Inr True \<and> get_cause h v = Inr c"
  by (auto simp: link_def walk_cond_def cause_in_def get_cause_def
      dest: instanceof_Error_Ref split: jsval.splits option.splits)

lemma walk_cond_True:
  "walk_cond h v = Inr True \<Longrightarrow> \<exists>c. link h v c \<and> get_cause h v = Inr c"
  by (auto simp: link_def walk_cond_def cause_in_def get_cause_def
      split: jsval.splits option.splits if_splits)

lemma cause_loop_chain:
  "chain h v cs \<Longrightarrow> cause_loop h v n = Some (Inr (last (v # cs)), n + length cs)"
proof (induction cs arbitrary: v n)
  case Nil
  then show ?case
    by (subst cause_loop.simps) (simp add: walk_cond_terminal)
next
  case (Cons c cs)
  then have l: "link h v c" and ch: "chain h c cs" by simp_all
  show ?case
    by (subst cause_loop.simps) (simp add: walk_cond_link [OF l] Cons.IH [OF ch])
qed

lemma cause_loop_acyclic:
  assumes acyc: "\<And>x c. link h x c \<Longrightarrow> rank c < rank x"
  shows "\<exists>r n. cause_loop h v k = Some (r, k + n) \<and> n \<le> rank v"
proof (induction "rank v" arbitrary: v k rule: less_induct)
  case less
  show ?case
  proof (cases "walk_cond h v")
    case (Inl e)
    then have "cause_loop h v k = Some (Inl e, k + 0)"
      by (subst cause_loop.simps) simp
    then show ?thesis by blast
  next
    case (Inr b)
    show ?thesis
    proof (cases b)
      case False
      with Inr have "cause_loop h v k = Some (Inr v, k + 0)"
        by (subst cause_loop.simps) simp
      then show ?thesis by blast
    next
      case True
      from Inr True have "walk_cond h v = Inr True" by simp
      then obtain c where l: "link h v c" and g: "get_cause h v = Inr c"
        using walk_cond_True by blast
      from acyc [OF l] have lt: "rank c < rank v" .
      from less [OF lt] obtain r n where
        c: "cause_loop h c (Suc k) = Some (r, Suc k + n)" and n: "n \<le> rank c"
        by blast
      have "cause_loop h v k = Some (r, k + Suc n)"
        by (subst cause_loop.simps) (simp add: Inr True g c)
      moreover have "Suc n \<le> rank v" using n lt by simp
      ultimately show ?thesis by blast
    qed
  qed
qed

section \<open>Lemmas about rendering\<close>




section \<open>Lemmas about the drop script\<close>

lemma await_tryCatch:
  "await (tryCatch p) = Normal (case p of Fulfilled v \<Rightarrow> Success v | Rejected e \<Rightarrow> Failure e)"
  by (cases p) (simp_all add: tryCatch_def Success_def Failure_def)

lemma drops_append: "drops (xs @ ys) = drops xs @ drops ys"
  by (induction xs rule: drops.induct) simp_all

lemma drop_loop_blank:
  "trim n = [] \<Longrightarrow>
   drop_loop ex (n # rest) s out d =
     drop_loop ex rest s (out @ [ConsoleWarn [String (lit ''Skipping empty schema name.'')]]) d"
  by simp

lemma drop_loop_fulfilled:
  "trim n \<noteq> [] \<Longrightarrow> ex n d = (Fulfilled v, d1) \<Longrightarrow>
   drop_loop ex (n # rest) s out d =
     drop_loop ex rest s
       (out @ [DbExecute n (Fulfilled v),
               ConsoleLog [String (lit ''Successfully dropped schema: '' @ n)]]) d1"
  by (simp add: await_tryCatch Success_def)

lemma drop_loop_rejected_truthy:
  "trim n \<noteq> [] \<Longrightarrow> ex n d = (Rejected e, d1) \<Longrightarrow> truthy e \<Longrightarrow>
   drop_loop ex (n # rest) s out d =
     drop_loop ex rest False
       (out @ [DbExecute n (Rejected e),
               ConsoleError [String (lit ''Error dropping schema '' @ n @ lit '':''), e]]) d1"
  by (simp add: await_tryCatch Failure_def)

lemma drop_loop_rejected_falsy:
  "trim n \<noteq> [] \<Longrightarrow> ex n d = (Rejected e, d1) \<Longrightarrow> \<not> truthy e \<Longrightarrow>
   drop_loop ex (n # rest) s out d =
     drop_loop ex rest s
       (out @ [DbExecute n (Rejected e),
               ConsoleLog [String (lit ''Successfully dropped schema: '' @ n)]]) d1"
  by (simp add: await_tryCatch Failure_def)

lemma drop_loop_post:
  "\<exists>new d'. drop_loop ex names s out d =
      (Normal (s \<and> (\<forall>n e. (n, Rejected e) \<in> set (drops new) \<longrightarrow> \<not> truthy e)), out @ new, d')
    \<and> loop_post names new"
proof (induction names arbitrary: s out d)
  case Nil
  show ?case by (intro exI [of _ "[]"]) (simp add: loop_post_def)
next
  case (Cons n rest)
  show ?case
  proof (cases "trim n = []")
    case True
    let ?ev = "[ConsoleWarn [String (lit ''Skipping empty schema name.'')]]"
    from Cons.IH [of s "out @ ?ev" d] obtain new d' where
      r: "drop_loop ex rest s (out @ ?ev) d =
        (Normal (s \<and> (\<forall>n e. (n, Rejected e) \<in> set (drops new) \<longrightarrow> \<not> truthy e)), (out @ ?ev) @ new, d')"
      and p: "loop_post rest new" by blast
    have "loop_post (n # rest) (?ev @ new)"
      using p True by (simp add: loop_post_def)
    moreover have "drops (?ev @ new) = drops new" by simp
    ultimately show ?thesis
      using r True by (intro exI [of _ "?ev @ new"] exI [of _ d']) simp
  next
    case False
    obtain p d1 where ex: "ex n d = (p, d1)" by (cases "ex n d")
    show ?thesis
    proof (cases p)
      case (Fulfilled v)
      let ?ev = "[DbExecute n (Fulfilled v),
                  ConsoleLog [String (lit ''Successfully dropped schema: '' @ n)]]"
      from Cons.IH [of s "out @ ?ev" d1] obtain new d' where
        r: "drop_loop ex rest s (out @ ?ev) d1 =
          (Normal (s \<and> (\<forall>n e. (n, Rejected e) \<in> set (drops new) \<longrightarrow> \<not> truthy e)), (out @ ?ev) @ new, d')"
        and p: "loop_post rest new" by blast
      have "loop_post (n # rest) (?ev @ new)"
        using p False by (auto simp: loop_post_def)
      moreover have "drops (?ev @ new) = (n, Fulfilled v) # drops new" by simp
      ultimately show ?thesis
        using r drop_loop_fulfilled [OF False, of ex d v d1 rest s out] ex Fulfilled
        by (intro exI [of _ "?ev @ new"] exI [of _ d']) simp
    next
      case (Rejected e)
      show ?thesis
      proof (cases "truthy e")
        case True
        let ?ev = "[DbExecute n (Rejected e),
                    ConsoleError [String (lit ''Error dropping schema '' @ n @ lit '':''), e]]"
        from Cons.IH [of False "out @ ?ev" d1] obtain new d' where
          r: "drop_loop ex rest False (out @ ?ev) d1 = (Normal False, (out @ ?ev) @ new, d')"
          and p: "loop_post rest new" by auto
        have "loop_post (n # rest) (?ev @ new)"
          using p False by (auto simp: loop_post_def)
        moreover have "drops (?ev @ new) = (n, Rejected e) # drops new" by simp
        ultimately show ?thesis
          using r drop_loop_rejected_truthy [OF False, of ex d e d1 rest s out] ex Rejected True
          by (intro exI [of _ "?ev @ new"] exI [of _ d']) auto
      next
        case nt: False
        let ?ev = "[DbExecute n (Rejected e),
                    ConsoleLog [String (lit ''Successfully dropped schema: '' @ n)]]"
        from Cons.IH [of s "out @ ?ev" d1] obtain new d' where
          r: "drop_loop ex rest s (out @ ?ev) d1 =
            (Normal (s \<and> (\<forall>n e. (n, Rejected e) \<in> set (drops new) \<longrightarrow> \<not> truthy e)), (out @ ?ev) @ new, d')"
          and p: "loop_post rest new" by blast
        have "loop_post (n # rest) (?ev @ new)"
          using p False nt by (auto simp: loop_post_def)
        moreover have "drops (?ev @ new) = (n, Rejected e) # drops new" by simp
        ultimately show ?thesis
          using r drop_loop_rejected_falsy [OF False, of ex d e d1 rest s out] ex Rejected nt
          by (intro exI [of _ "?ev @ new"] exI [of _ d']) auto
      qed
    qed
  qed
qed

section \<open>Properties of tryCatch and trySync\<close>

text \<open>
  C1. For every promise that resolves with value \<open>v\<close>, \<open>Errors.try\<close> returns a
  promise fulfilled with the Success shape: its \<open>data\<close> field is exactly \<open>v\<close> and its
  \<open>error\<close> field is \<open>undefined\<close>.
\<close>

theorem tryCatch_resolved:
  "tryCatch (Fulfilled v) = Fulfilled (Success v)
   \<and> data (Success v) = v \<and> error (Success v) = Undefined"
  by (simp add: tryCatch_def Success_def)

text \<open>
  C2 does not hold for every thrown value: a promise rejected with \<open>undefined\<close>
  gives the very result of a promise fulfilled with \<open>undefined\<close>, which is the
  Success variant and not the Failure variant.
\<close>

theorem tryCatch_rejected_undefined_counterexample:
  "tryCatch (Rejected Undefined) = tryCatch (Fulfilled Undefined)
   \<and> tryCatch (Rejected Undefined) = Fulfilled (Success Undefined)
   \<and> is_Success (Success Undefined)
   \<and> \<not> is_Failure (Success Undefined)"
  by (simp add: tryCatch_def Success_def is_Success_def is_Failure_def)

text \<open>
  C2, amended. For every promise that rejects with a thrown value \<open>e\<close>, of any kind
  (an object reference, a string, \<open>undefined\<close>, ...), \<open>Errors.try\<close> does not reject:
  its promise is fulfilled with a result whose \<open>error\<close> field is the very value \<open>e\<close>
  (a reference stays the same reference; the wrapper has no access to the store, so
  the object is not touched) and whose \<open>data\<close> field is \<open>undefined\<close>. When \<open>e\<close> is
  not \<open>undefined\<close>, this result is the Failure variant and not the Success variant,
  and it differs from the result of every fulfilled promise.
\<close>

theorem tryCatch_rejected:
  "tryCatch (Rejected e) = Fulfilled (Failure e)
   \<and> error (Failure e) = e \<and> data (Failure e) = Undefined
   \<and> (\<forall>r. tryCatch (Rejected e) \<noteq> Rejected r)
   \<and> (e \<noteq> Undefined \<longrightarrow>
        is_Failure (Failure e) \<and> \<not> is_Success (Failure e)
        \<and> (\<forall>v. tryCatch (Rejected e) \<noteq> tryCatch (Fulfilled v)))"
  by (simp add: tryCatch_def Failure_def is_Success_def is_Failure_def)

theorem tryCatch_rejected_witness:
  "String (lit ''oops'') \<noteq> Undefined
   \<and> tryCatch (Rejected (String (lit ''oops''))) = Fulfilled (Failure (String (lit ''oops'')))
   \<and> is_Failure (Failure (String (lit ''oops'')))
   \<and> \<not> is_Success (Failure (String (lit ''oops'')))
   \<and> tryCatch (Rejected (Ref 0)) = Fulfilled (Failure (Ref 0))
   \<and> is_Failure (Failure (Ref 0))"
proof -
  have n: "String (lit ''oops'') \<noteq> Undefined" "Ref 0 \<noteq> Undefined" by simp_all
  from tryCatch_rejected [of "String (lit ''oops'')"] n(1)
  have a: "tryCatch (Rejected (String (lit ''oops''))) = Fulfilled (Failure (String (lit ''oops'')))"
    "is_Failure (Failure (String (lit ''oops'')))"
    "\<not> is_Success (Failure (String (lit ''oops'')))"
    by blast+
  from tryCatch_rejected [of "Ref 0"] n(2)
  have b: "tryCatch (Rejected (Ref 0)) = Fulfilled (Failure (Ref 0))"
    "is_Failure (Failure (Ref 0))"
    by blast+
  from n(1) a b show ?thesis by (intro conjI)
qed

text \<open>
  C3 does not hold for every thrown value: a callable that throws \<open>undefined\<close> gives
  the very result of a callable that returns \<open>undefined\<close>, which is the Success
  variant and not the Failure variant.
\<close>

theorem trySync_throw_undefined_counterexample:
  "trySync fn_throw_undefined () = trySync fn_return_undefined ()
   \<and> trySync fn_throw_undefined () = (Normal (Success Undefined), ())
   \<and> is_Success (Success Undefined)
   \<and> \<not> is_Failure (Success Undefined)"
  by (simp add: trySync_def fn_throw_undefined_def fn_return_undefined_def Success_def
      is_Success_def is_Failure_def)

text \<open>
  C3, amended. When the callable returns \<open>v\<close>, \<open>trySync\<close> returns the Success
  variant with \<open>data\<close> \<open>v\<close>; when it throws \<open>e\<close>, \<open>trySync\<close> does not throw and
  returns a result whose \<open>error\<close> field is \<open>e\<close> and whose \<open>data\<close> field is
  \<open>undefined\<close>, which is the Failure variant, and not the Success variant, when \<open>e\<close>
  is not \<open>undefined\<close>. The state is the one the callable left.
\<close>

theorem trySync_result:
  "(fn s = (Normal v, s') \<longrightarrow>
      trySync fn s = (Normal (Success v), s')
      \<and> data (Success v) = v \<and> error (Success v) = Undefined
      \<and> is_Success (Success v))
   \<and> (fn s = (Throw e, s') \<longrightarrow>
      trySync fn s = (Normal (Failure e), s')
      \<and> error (Failure e) = e \<and> data (Failure e) = Undefined
      \<and> (\<forall>x. fst (trySync fn s) \<noteq> Throw x))
   \<and> (fn s = (Throw e, s') \<and> e \<noteq> Undefined \<longrightarrow>
      is_Failure (Failure e) \<and> \<not> is_Success (Failure e))"
  by (simp add: trySync_def Success_def Failure_def is_Success_def is_Failure_def)

theorem trySync_result_witness:
  "trySync (\<lambda>s::nat. (Normal (Number 7), Suc s)) 0 = (Normal (Success (Number 7)), Suc 0)
   \<and> is_Success (Success (Number 7))
   \<and> trySync (\<lambda>s::nat. (Throw (String (lit ''boom'')), Suc s)) 0
       = (Normal (Failure (String (lit ''boom''))), Suc 0)
   \<and> is_Failure (Failure (String (lit ''boom'')))
   \<and> \<not> is_Success (Failure (String (lit ''boom'')))"
proof -
  let ?ret = "\<lambda>s::nat. (Normal (Number 7), Suc s)"
  let ?thr = "\<lambda>s::nat. (Throw (String (lit ''boom'')), Suc s)"
  have n: "String (lit ''boom'') \<noteq> Undefined" by simp
  note r = trySync_result [of ?ret 0 "Number 7" "Suc 0", THEN conjunct1, THEN mp, OF refl]
  note t = trySync_result [of ?thr 0 _ "Suc 0" "String (lit ''boom'')", THEN conjunct2]
  note t1 = t [THEN conjunct1, THEN mp, OF refl]
  note t2 = t [THEN conjunct2, THEN mp, OF conjI [OF refl n]]
  show ?thesis
    by (intro conjI r [THEN conjunct1] r [THEN conjunct2, THEN conjunct2, THEN conjunct2]
        t1 [THEN conjunct1] t2 [THEN conjunct1] t2 [THEN conjunct2])
qed

section \<open>Properties of WrappedError\<close>

text \<open>
  C4. For every cause \<open>c\<close> and every message, \<open>wrap(c, message)\<close> makes a new object
  (its address is not one of the store before, and the objects of the store before
  are unchanged) of class \<open>WrappedError\<close>, whose \<open>message\<close> is the message given,
  whose \<open>name\<close> is "WrappedError", and whose \<open>unwrap()\<close> returns \<open>c\<close> itself.
\<close>

theorem wrap_unwrap:
  assumes "wrap h c msg = (w, h')"
  shows "unwrap h' w = Inr c
    \<and> w = Ref (length h) \<and> lookup h (length h) = None
    \<and> (\<exists>ob. lookup h' (length h) = Some ob \<and> message ob = msg
          \<and> name ob = lit ''WrappedError'' \<and> cls ob = WrappedErrorClass)
    \<and> (\<forall>a. a < length h \<longrightarrow> lookup h' a = lookup h a)"
  using assms by (auto simp: wrap_eq unwrap_def lookup_def nth_append)

theorem wrap_unwrap_witness:
  "wrap store0 (Ref 0) (lit ''B'') = (Ref 1, butlast store2)
   \<and> unwrap (butlast store2) (Ref 1) = Inr (Ref 0)
   \<and> lookup (butlast store2) 0 = lookup store0 0"
proof -
  have w: "wrap store0 (Ref 0) (lit ''B'') = (Ref 1, butlast store2)"
    by (simp add: wrap_eq store0_def store2_def)
  have l: "length store0 = 1" by (simp add: store0_def)
  show ?thesis using w wrap_unwrap [OF w] l by simp
qed

text \<open>
  C5. \<open>WrappedError.cause\<close> follows the links of a chain and returns its last value,
  which is terminal (no \<open>cause\<close> property, a \<open>cause\<close> that is \<open>undefined\<close> or
  \<open>null\<close>, or a \<open>cause\<close> that is not an instance of \<open>Error\<close>) while none before it
  is. In particular, for a terminal error \<open>root\<close> of a closed store, wrapping it any
  number of times and walking from the outermost wrapper returns \<open>root\<close>; and walking
  from a terminal error returns that error.
\<close>

theorem WrappedError_cause_root:
  "(chain h v cs \<longrightarrow>
      WrappedError_cause h v = Some (Inr (last (v # cs)))
      \<and> terminal h (last (v # cs))
      \<and> (\<forall>x \<in> set (butlast (v # cs)). \<not> terminal h x))
   \<and> (closed h \<and> instanceof_Error h root \<and> terminal h root
        \<and> wrap_all h root msgs = (w, h') \<longrightarrow>
      WrappedError_cause h' w = Some (Inr root))
   \<and> (terminal h v \<longrightarrow> WrappedError_cause h v = Some (Inr v))"
proof (intro conjI impI)
  assume ch: "chain h v cs"
  from cause_loop_chain [OF ch, of 0]
  show "WrappedError_cause h v = Some (Inr (last (v # cs)))"
    by (simp add: WrappedError_cause_def)
  from ch show "terminal h (last (v # cs))" by (rule chain_last_terminal)
  from ch show "\<forall>x \<in> set (butlast (v # cs)). \<not> terminal h x"
    using chain_butlast_not_terminal by blast
next
  assume a: "closed h \<and> instanceof_Error h root \<and> terminal h root
    \<and> wrap_all h root msgs = (w, h')"
  then have "chain h root []" by simp
  with a wrap_all_chain [of h root "[]" msgs] obtain cs' where
    "chain h' w cs'" and "last (w # cs') = root" by auto
  with cause_loop_chain [of h' w cs' 0]
  show "WrappedError_cause h' w = Some (Inr root)"
    by (simp add: WrappedError_cause_def)
next
  assume "terminal h v"
  then have "chain h v []" by simp
  from cause_loop_chain [OF this, of 0]
  show "WrappedError_cause h v = Some (Inr v)"
    by (simp add: WrappedError_cause_def)
qed

theorem WrappedError_cause_root_witness:
  "closed store0 \<and> instanceof_Error store0 (Ref 0) \<and> terminal store0 (Ref 0)
   \<and> wrap_all store0 (Ref 0) [lit ''B'', lit ''A''] = (Ref 2, store2)
   \<and> chain store2 (Ref 2) [Ref 1, Ref 0]
   \<and> WrappedError_cause store2 (Ref 2) = Some (Inr (Ref 0))
   \<and> WrappedError_cause store0 (Ref 0) = Some (Inr (Ref 0))"
proof -
  have 1: "closed store0" by (simp add: closed_def store0_def)
  have 2: "instanceof_Error store0 (Ref 0)"
    by (simp add: instanceof_Error_def lookup_def store0_def)
  have 3: "terminal store0 (Ref 0)" by (simp add: terminal_def lookup_def store0_def)
  have 4: "wrap_all store0 (Ref 0) [lit ''B'', lit ''A''] = (Ref 2, store2)"
    by (simp add: wrap_eq store0_def store2_def)
  have 5: "chain store2 (Ref 2) [Ref 1, Ref 0]"
    by (simp add: link_def terminal_def instanceof_Error_def lookup_def store0_def store2_def)
  show ?thesis
    using 1 2 3 4 5
      WrappedError_cause_root [where h = store2 and v = "Ref 2" and cs = "[Ref 1, Ref 0]"
        and root = "Ref 0" and msgs = "[lit ''B'', lit ''A'']" and w = "Ref 2"
        and h' = store2]
      WrappedError_cause_root [where h = store0 and v = "Ref 0" and cs = "[]"
        and root = "Ref 0" and msgs = "[]" and w = "Ref 0" and h' = store0]
    by simp
qed

text \<open>
  C6. The walk of \<open>WrappedError.cause\<close> ends on every store without a cycle of causes,
  that is, where some measure decreases along every link, after at most as many
  iterations as the measure of the start; and on a chain it ends after exactly as
  many iterations as the chain has links. No cap on the length is involved.
\<close>

theorem cause_loop_terminates:
  "((\<forall>x c. link h x c \<longrightarrow> rank c < rank x) \<longrightarrow>
      (\<exists>r n. cause_loop h v 0 = Some (r, n) \<and> n \<le> rank v))
   \<and> (chain h v cs \<longrightarrow> cause_loop h v 0 = Some (Inr (last (v # cs)), length cs))"
proof (intro conjI impI)
  assume "\<forall>x c. link h x c \<longrightarrow> rank c < rank x"
  then have "\<And>x c. link h x c \<Longrightarrow> rank c < rank x" by blast
  from cause_loop_acyclic [of h rank v 0, OF this]
  show "\<exists>r n. cause_loop h v 0 = Some (r, n) \<and> n \<le> rank v" by simp
next
  assume "chain h v cs"
  from cause_loop_chain [OF this, of 0]
  show "cause_loop h v 0 = Some (Inr (last (v # cs)), length cs)" by simp
qed

theorem cause_loop_terminates_witness:
  "ordered store2
   \<and> chain store2 (Ref 2) [Ref 1, Ref 0]
   \<and> (\<exists>r n. cause_loop store2 (Ref 2) 0 = Some (r, n) \<and> n \<le> 2)
   \<and> cause_loop store2 (Ref 2) 0 = Some (Inr (Ref 0), 2)"
proof -
  have 0: "ordered store2" by (simp add: ordered_def store0_def store2_def)
  then have 1: "\<forall>x c. link store2 x c \<longrightarrow> addr_rank c < addr_rank x"
    using ordered_link by blast
  have 2: "chain store2 (Ref 2) [Ref 1, Ref 0]"
    by (simp add: link_def terminal_def instanceof_Error_def lookup_def store0_def store2_def)
  have 3: "addr_rank (Ref 2) = 2" by (simp add: addr_rank_def)
  show ?thesis
    using 0 1 2 3 cause_loop_terminates [of store2 addr_rank "Ref 2" "[Ref 1, Ref 0]"]
    by simp
qed





section \<open>Properties of the drop script\<close>

lemma filter_pos_mem: "0 < length (filter P xs) \<Longrightarrow> \<exists>x \<in> set xs. P x"
  by (induction xs) (auto split: if_splits)

lemma drop_loop_all_blank:
  "\<forall>n \<in> set names. trim n = [] \<Longrightarrow>
   drop_loop ex names s out d =
     (Normal s,
      out @ replicate (length names) (ConsoleWarn [String (lit ''Skipping empty schema name.'')]),
      d)"
proof (induction names arbitrary: out)
  case Nil
  show ?case by simp
next
  case (Cons n names)
  then show ?case by (simp add: replicate_append_same)
qed

lemma dropSchemas_cases:
  assumes "dropSchemas ex names d = (st, out, d')"
  shows "(names = [] \<and> st = Exit 0
            \<and> out = [ConsoleLog [String (lit ''No schemas specified to drop.'')]] \<and> d' = d)
         \<or> (names \<noteq> [] \<and> (\<exists>new. loop_post names new
              \<and> (((\<forall>n e. (n, Rejected e) \<in> set (drops new) \<longrightarrow> \<not> truthy e)
                    \<and> st = Exit 0
                    \<and> out = new @ [ConsoleLog
                         [String (lit ''All specified schemas dropped successfully.'')]])
                 \<or> ((\<exists>n e. (n, Rejected e) \<in> set (drops new) \<and> truthy e)
                    \<and> st = Exit 1
                    \<and> out = new @ [ConsoleError
                         [String (lit ''Some schemas failed to drop.'')]]))))"
proof (cases "names = []")
  case True
  with assms show ?thesis by (auto simp: dropSchemas_def)
next
  case False
  from drop_loop_post [of ex names True "[]" d] obtain new d1 where
    r: "drop_loop ex names True [] d =
      (Normal (\<forall>n e. (n, Rejected e) \<in> set (drops new) \<longrightarrow> \<not> truthy e), new, d1)"
    and p: "loop_post names new" by auto
  show ?thesis
  proof (cases "\<forall>n e. (n, Rejected e) \<in> set (drops new) \<longrightarrow> \<not> truthy e")
    case True
    with r have "drop_loop ex names True [] d = (Normal True, new, d1)" by simp
    with assms False have "st = Exit 0"
      "out = new @ [ConsoleLog [String (lit ''All specified schemas dropped successfully.'')]]"
      by (simp_all add: dropSchemas_def)
    with False p True show ?thesis by blast
  next
    case nok: False
    with r have "drop_loop ex names True [] d = (Normal False, new, d1)" by simp
    with assms False have "st = Exit 1"
      "out = new @ [ConsoleError [String (lit ''Some schemas failed to drop.'')]]"
      by (simp_all add: dropSchemas_def)
    with False p nok show ?thesis by blast
  qed
qed

text \<open>
  What the script reports: a drop is reported as failed when its promise is rejected
  with a truthy reason, since the script tests \<open>result.error\<close> for truth.
\<close>

lemma dropSchemas_report:
  assumes "dropSchemas ex names d = (st, out, d')"
  shows "(names = [] \<longrightarrow>
            st = Exit 0 \<and> drops out = []
            \<and> out = [ConsoleLog [String (lit ''No schemas specified to drop.'')]])
     \<and> (names = [lit ''analytics'', lit []] \<longrightarrow>
            ConsoleWarn [String (lit ''Skipping empty schema name.'')] \<in> set out
            \<and> map fst (drops out) = [lit ''analytics''])
     \<and> ((\<forall>n p. (n, p) \<in> set (drops out) \<longrightarrow> (\<exists>v. p = Fulfilled v)) \<longrightarrow>
            st = Exit 0
            \<and> (\<forall>n p. (n, p) \<in> set (drops out) \<longrightarrow>
                 ConsoleLog [String (lit ''Successfully dropped schema: '' @ n)] \<in> set out))
     \<and> ((\<exists>n e. (n, Rejected e) \<in> set (drops out) \<and> truthy e) \<longrightarrow>
            st = Exit 1
            \<and> (\<forall>n e. (n, Rejected e) \<in> set (drops out) \<and> truthy e \<longrightarrow>
                 ConsoleError [String (lit ''Error dropping schema '' @ n @ lit '':''), e]
                   \<in> set out)
            \<and> last out = ConsoleError [String (lit ''Some schemas failed to drop.'')])"
proof -
  let ?warn = "ConsoleWarn [String (lit ''Skipping empty schema name.'')]"
  have two: "?warn \<in> set new \<and> map fst (drops new) = [lit ''analytics'']"
    if n: "names = [lit ''analytics'', lit []]" and p: "loop_post names new" for new
  proof -
    have f: "filter (\<lambda>n. trim n \<noteq> []) names = [lit ''analytics'']"
      "length (filter (\<lambda>n. trim n = []) names) = 1"
      by (simp_all add: n trim_def is_whitespace_def lit_def)
    from p f have "0 < length (filter (\<lambda>ev. ev = ?warn) new)"
      and m: "map fst (drops new) = [lit ''analytics'']"
      by (simp_all add: loop_post_def)
    then have "?warn \<in> set new"
      using filter_pos_mem [of "\<lambda>ev. ev = ?warn" new] by blast
    with m show ?thesis by simp
  qed
  from dropSchemas_cases [OF assms] consider
    (empty) "names = []" "st = Exit 0"
      "out = [ConsoleLog [String (lit ''No schemas specified to drop.'')]]"
  | (good) new where "names \<noteq> []" "loop_post names new"
      "\<forall>n e. (n, Rejected e) \<in> set (drops new) \<longrightarrow> \<not> truthy e" "st = Exit 0"
      "out = new @ [ConsoleLog [String (lit ''All specified schemas dropped successfully.'')]]"
  | (bad) new where "names \<noteq> []" "loop_post names new"
      "\<exists>n e. (n, Rejected e) \<in> set (drops new) \<and> truthy e" "st = Exit 1"
      "out = new @ [ConsoleError [String (lit ''Some schemas failed to drop.'')]]"
    by blast
  then show ?thesis
  proof cases
    case empty
    then show ?thesis by simp
  next
    case good
    have d: "drops out = drops new" by (simp add: good(5) drops_append)
    have mem: "set new \<subseteq> set out" by (auto simp: good(5))
    have c2: "names = [lit ''analytics'', lit []] \<longrightarrow>
        ?warn \<in> set out \<and> map fst (drops out) = [lit ''analytics'']"
      using two [OF _ good(2)] by (simp add: good(5) drops_append)
    have c3: "st = Exit 0
        \<and> (\<forall>n p. (n, p) \<in> set (drops out) \<longrightarrow> (\<exists>v. p = Fulfilled v) \<longrightarrow>
             ConsoleLog [String (lit ''Successfully dropped schema: '' @ n)] \<in> set out)"
      using good(2,4) d mem by (auto simp: loop_post_def)
    have c4: "\<not> (\<exists>n e. (n, Rejected e) \<in> set (drops out) \<and> truthy e)"
      using good(3) unfolding d by blast
    from good(1) c2 c3 c4 show ?thesis by blast
  next
    case bad
    have d: "drops out = drops new" by (simp add: bad(5) drops_append)
    have mem: "set new \<subseteq> set out" by (auto simp: bad(5))
    have lst: "last out = ConsoleError [String (lit ''Some schemas failed to drop.'')]"
      by (simp add: bad(5))
    have c2: "names = [lit ''analytics'', lit []] \<longrightarrow>
        ?warn \<in> set out \<and> map fst (drops out) = [lit ''analytics'']"
      using two [OF _ bad(2)] by (simp add: bad(5) drops_append)
    have c3: "\<not> (\<forall>n p. (n, p) \<in> set (drops out) \<longrightarrow> (\<exists>v. p = Fulfilled v))"
      using bad(3) unfolding d by blast
    have c4: "st = Exit 1
        \<and> (\<forall>n e. (n, Rejected e) \<in> set (drops out) \<and> truthy e \<longrightarrow>
             ConsoleError [String (lit ''Error dropping schema '' @ n @ lit '':''), e]
               \<in> set out)
        \<and> last out = ConsoleError [String (lit ''Some schemas failed to drop.'')]"
      using bad(2,4) d mem lst by (auto simp: loop_post_def)
    from bad(1) c2 c3 c4 show ?thesis by blast
  qed
qed

text \<open>
  C8. With an empty list the script logs "No schemas specified to drop.", hands no
  statement to the database and exits with status 0. With the list ["analytics", ""]
  it warns about the empty entry and hands the database the one statement for
  "analytics". When every attempted drop succeeds (its promise is fulfilled) it logs
  the success of each and exits with status 0. When an attempted drop fails, that is,
  its promise is rejected with an error object (what \<open>db.execute\<close> rejects with, and
  what \<open>E extends Error\<close> of the Result type says), it logs each such failure with
  its error, ends with "Some schemas failed to drop." and exits with status 1.
\<close>

theorem dropSchemas_outcome:
  assumes "dropSchemas ex names d = (st, out, d')"
  shows "(names = [] \<longrightarrow>
            st = Exit 0 \<and> drops out = []
            \<and> out = [ConsoleLog [String (lit ''No schemas specified to drop.'')]])
     \<and> (names = [lit ''analytics'', lit []] \<longrightarrow>
            ConsoleWarn [String (lit ''Skipping empty schema name.'')] \<in> set out
            \<and> map fst (drops out) = [lit ''analytics''])
     \<and> ((\<forall>n p. (n, p) \<in> set (drops out) \<longrightarrow> (\<exists>v. p = Fulfilled v)) \<longrightarrow>
            st = Exit 0
            \<and> (\<forall>n p. (n, p) \<in> set (drops out) \<longrightarrow>
                 ConsoleLog [String (lit ''Successfully dropped schema: '' @ n)] \<in> set out))
     \<and> ((\<exists>n a. (n, Rejected (Ref a)) \<in> set (drops out)) \<longrightarrow>
            st = Exit 1
            \<and> (\<forall>n a. (n, Rejected (Ref a)) \<in> set (drops out) \<longrightarrow>
                 ConsoleError [String (lit ''Error dropping schema '' @ n @ lit '':''), Ref a]
                   \<in> set out)
            \<and> last out = ConsoleError [String (lit ''Some schemas failed to drop.'')])"
proof -
  note r = dropSchemas_report [OF assms]
  have t: "truthy (Ref a)" for a by simp
  have four: "st = Exit 1
      \<and> (\<forall>n a. (n, Rejected (Ref a)) \<in> set (drops out) \<longrightarrow>
           ConsoleError [String (lit ''Error dropping schema '' @ n @ lit '':''), Ref a]
             \<in> set out)
      \<and> last out = ConsoleError [String (lit ''Some schemas failed to drop.'')]"
    if "\<exists>n a. (n, Rejected (Ref a)) \<in> set (drops out)"
  proof -
    from that t have "\<exists>n e. (n, Rejected e) \<in> set (drops out) \<and> truthy e" by blast
    with r have "st = Exit 1"
      "\<forall>n e. (n, Rejected e) \<in> set (drops out) \<and> truthy e \<longrightarrow>
         ConsoleError [String (lit ''Error dropping schema '' @ n @ lit '':''), e] \<in> set out"
      "last out = ConsoleError [String (lit ''Some schemas failed to drop.'')]"
      by blast+
    with t show ?thesis by blast
  qed
  from r four show ?thesis by blast
qed

theorem dropSchemas_outcome_witness:
  "dropSchemas db_ok [] () =
     (Exit 0, [ConsoleLog [String (lit ''No schemas specified to drop.'')]], ())
   \<and> dropSchemas db_ok [lit ''analytics'', lit []] () =
     (Exit 0,
      [DbExecute (lit ''analytics'') (Fulfilled Undefined),
       ConsoleLog [String (lit ''Successfully dropped schema: analytics'')],
       ConsoleWarn [String (lit ''Skipping empty schema name.'')],
       ConsoleLog [String (lit ''All specified schemas dropped successfully.'')]],
      ())
   \<and> dropSchemas db_permission_denied [lit ''analytics''] () =
     (Exit 1,
      [DbExecute (lit ''analytics'') (Rejected (Ref 0)),
       ConsoleError [String (lit ''Error dropping schema analytics:''), Ref 0],
       ConsoleError [String (lit ''Some schemas failed to drop.'')]],
      ())
   \<and> fst (dropSchemas db_ok [] ()) = Exit 0
   \<and> fst (dropSchemas db_ok [lit ''analytics'', lit []] ()) = Exit 0
   \<and> fst (dropSchemas db_permission_denied [lit ''analytics''] ()) = Exit 1"
proof -
  let ?out2 = "[DbExecute (lit ''analytics'') (Fulfilled Undefined),
       ConsoleLog [String (lit ''Successfully dropped schema: analytics'')],
       ConsoleWarn [String (lit ''Skipping empty schema name.'')],
       ConsoleLog [String (lit ''All specified schemas dropped successfully.'')]]"
  let ?out3 = "[DbExecute (lit ''analytics'') (Rejected (Ref 0)),
       ConsoleError [String (lit ''Error dropping schema analytics:''), Ref 0],
       ConsoleError [String (lit ''Some schemas failed to drop.'')]]"
  have e1: "dropSchemas db_ok [] () =
     (Exit 0, [ConsoleLog [String (lit ''No schemas specified to drop.'')]], ())"
    by (simp add: dropSchemas_def)
  have e2: "dropSchemas db_ok [lit ''analytics'', lit []] () = (Exit 0, ?out2, ())"
    by (simp add: dropSchemas_def db_ok_def tryCatch_def trim_def is_whitespace_def lit_def)
  have e3: "dropSchemas db_permission_denied [lit ''analytics''] () = (Exit 1, ?out3, ())"
    by (simp add: dropSchemas_def db_permission_denied_def tryCatch_def trim_def
        is_whitespace_def lit_def)
  let ?r1 = "dropSchemas db_ok [] ()"
  let ?r2 = "dropSchemas db_ok [lit ''analytics'', lit []] ()"
  let ?r3 = "dropSchemas db_permission_denied [lit ''analytics''] ()"
  have c1: "?r1 = (fst ?r1, fst (snd ?r1), snd (snd ?r1))" by (simp only: prod.collapse)
  have c2: "?r2 = (fst ?r2, fst (snd ?r2), snd (snd ?r2))" by (simp only: prod.collapse)
  have c3: "?r3 = (fst ?r3, fst (snd ?r3), snd (snd ?r3))" by (simp only: prod.collapse)
  have h3: "\<forall>n p. (n, p) \<in> set (drops (fst (snd ?r2))) \<longrightarrow> (\<exists>v. p = Fulfilled v)"
    unfolding e2 by simp
  have h4: "\<exists>n a. (n, Rejected (Ref a)) \<in> set (drops (fst (snd ?r3)))"
    unfolding e3 by simp
  from dropSchemas_outcome [OF c1] have s1: "fst ?r1 = Exit 0" by blast
  from dropSchemas_outcome [OF c2] h3 have s2: "fst ?r2 = Exit 0" by blast
  from dropSchemas_outcome [OF c3] h4 have s3: "fst ?r3 = Exit 1" by blast
  from e1 e2 e3 s1 s2 s3 show ?thesis by (intro conjI)
qed

text \<open>
  C10. The statements handed to the database are those of the entries whose trimmed
  form is not empty, in order, and there is one warning for each entry whose trimmed
  form is empty; the trimmed form of a name of two spaces is empty. For a list that is
  not empty and whose entries all trim to the empty string, the script warns once for
  each entry, hands no statement to the database, logs "All specified schemas dropped
  successfully." and exits with status 0.
\<close>

theorem dropSchemas_skips_blank:
  assumes "dropSchemas ex names d = (st, out, d')"
  shows "map fst (drops out) = filter (\<lambda>n. trim n \<noteq> []) names
     \<and> length (filter (\<lambda>ev. ev = ConsoleWarn [String (lit ''Skipping empty schema name.'')]) out)
         = length (filter (\<lambda>n. trim n = []) names)
     \<and> trim (lit ''  '') = []
     \<and> (names \<noteq> [] \<and> (\<forall>n \<in> set names. trim n = []) \<longrightarrow>
          st = Exit 0 \<and> drops out = [] \<and> d' = d
          \<and> out = replicate (length names)
                    (ConsoleWarn [String (lit ''Skipping empty schema name.'')])
                  @ [ConsoleLog [String (lit ''All specified schemas dropped successfully.'')]])"
proof -
  let ?warn = "ConsoleWarn [String (lit ''Skipping empty schema name.'')]"
  have a: "map fst (drops out) = filter (\<lambda>n. trim n \<noteq> []) names
     \<and> length (filter (\<lambda>ev. ev = ?warn) out) = length (filter (\<lambda>n. trim n = []) names)"
    using dropSchemas_cases [OF assms]
    by (auto simp: loop_post_def drops_append)
  have b: "trim (lit ''  '') = []"
    by (simp add: trim_def is_whitespace_def lit_def)
  have c: "st = Exit 0 \<and> drops out = [] \<and> d' = d
      \<and> out = replicate (length names) ?warn
          @ [ConsoleLog [String (lit ''All specified schemas dropped successfully.'')]]"
    if ne: "names \<noteq> []" and bl: "\<forall>n \<in> set names. trim n = []"
  proof -
    have "drop_loop ex names True [] d = (Normal True, [] @ replicate (length names) ?warn, d)"
      using bl by (rule drop_loop_all_blank)
    with assms ne have "st = Exit 0" "d' = d"
      "out = replicate (length names) ?warn
          @ [ConsoleLog [String (lit ''All specified schemas dropped successfully.'')]]"
      by (simp_all add: dropSchemas_def)
    moreover from a bl have "drops out = []"
      by (simp add: filter_empty_conv)
    ultimately show ?thesis by simp
  qed
  from a b c show ?thesis by blast
qed

theorem dropSchemas_skips_blank_witness:
  "dropSchemas db_ok [lit ''  '', lit []] () =
     (Exit 0,
      [ConsoleWarn [String (lit ''Skipping empty schema name.'')],
       ConsoleWarn [String (lit ''Skipping empty schema name.'')],
       ConsoleLog [String (lit ''All specified schemas dropped successfully.'')]],
      ())
   \<and> trim (lit ''  '') = [] \<and> trim (lit []) = []
   \<and> fst (dropSchemas db_ok [lit ''  '', lit []] ()) = Exit 0
   \<and> drops (fst (snd (dropSchemas db_ok [lit ''  '', lit []] ()))) = []"
proof -
  let ?out = "[ConsoleWarn [String (lit ''Skipping empty schema name.'')],
       ConsoleWarn [String (lit ''Skipping empty schema name.'')],
       ConsoleLog [String (lit ''All specified schemas dropped successfully.'')]]"
  have t: "trim (lit ''  '') = []" "trim (lit []) = []"
    by (simp_all add: trim_def is_whitespace_def lit_def)
  have e: "dropSchemas db_ok [lit ''  '', lit []] () = (Exit 0, ?out, ())"
    by (simp add: dropSchemas_def t)
  let ?r = "dropSchemas db_ok [lit ''  '', lit []] ()"
  have c: "?r = (fst ?r, fst (snd ?r), snd (snd ?r))" by (simp only: prod.collapse)
  have h: "[lit ''  '', lit []] \<noteq> [] \<and> (\<forall>n \<in> set [lit ''  '', lit []]. trim n = [])"
    by (simp add: t)
  from dropSchemas_skips_blank [OF c] h
  have s: "fst ?r = Exit 0" "drops (fst (snd ?r)) = []" by blast+
  from e t s show ?thesis by (intro conjI)
qed

end
